theory Spec2Isabelle
  imports Main
begin

section \<open>The CSS selector builder of 05-objects-tasks.js\<close>

subsection \<open>Fragments, selectors and errors\<close>

text \<open>
  A fragment is the object literal \<^verbatim>\<open>{ type, value }\<close>. The builder only ever writes
  seven type tags: \<^verbatim>\<open>'element'\<close>, \<^verbatim>\<open>'id'\<close>, \<^verbatim>\<open>'class'\<close>, \<^verbatim>\<open>'attribute'\<close>,
  \<^verbatim>\<open>'pseudo-class'\<close>, \<^verbatim>\<open>'pseudo-element'\<close> and \<^verbatim>\<open>'combinator'\<close>.
\<close>

datatype kind =
  KElement | KId | KClass | KAttribute | KPseudoClass | KPseudoElement | KCombinator

record fragment =
  frag_type :: kind
  frag_value :: string

text \<open>
  A selector object carries the property \<^verbatim>\<open>res\<close>, an array of fragments. The facade
  \<^verbatim>\<open>cssSelectorBuilder\<close> itself has no such property (\<^verbatim>\<open>this.res\<close> is undefined there).
\<close>

record selector =
  res :: "fragment list option"

definition cssSelectorBuilder :: selector where
  "cssSelectorBuilder = \<lparr>res = None\<rparr>"

text \<open>Both failures are \<^verbatim>\<open>throw new Error(message)\<close>; the message tells them apart.\<close>

datatype js_error = Error string

definition TWICE_ERROR :: string where
  "TWICE_ERROR =
     ''Element, id and pseudo-element should not occur more then one time inside the selector''"

definition NOT_SO_ERROR :: string where
  "NOT_SO_ERROR =
     ''Selector parts should be arranged in the following order: element, id, class, attribute, pseudo-class, pseudo-element''"

text \<open>\<^verbatim>\<open>this.res || []\<close>: an array, even an empty one, is truthy.\<close>

definition res_or_empty :: "selector \<Rightarrow> fragment list" where
  "res_or_empty this = (case res this of None \<Rightarrow> [] | Some a \<Rightarrow> a)"

subsection \<open>Order validation\<close>

text \<open>\<^verbatim>\<open>Array.prototype.indexOf\<close>: the first index of the element, or \<open>-1\<close>.\<close>

fun indexOf_from :: "'a list \<Rightarrow> 'a \<Rightarrow> int \<Rightarrow> int" where
  "indexOf_from [] x i = - 1"
| "indexOf_from (y # ys) x i = (if y = x then i else indexOf_from ys x (i + 1))"

definition indexOf :: "'a list \<Rightarrow> 'a \<Rightarrow> int" where
  "indexOf xs x = indexOf_from xs x 0"

definition order :: "kind list" where
  "order = [KElement, KId, KClass, KAttribute, KPseudoClass, KPseudoElement]"

text \<open>
  \<^verbatim>\<open>array.every((value, index, array) => !index
       || order.indexOf(array[index - 1].type) <= order.indexOf(value.type))\<close>
\<close>

definition isSorted :: "fragment list \<Rightarrow> bool" where
  "isSorted array =
     list_all (\<lambda>index. index = 0
                 \<or> indexOf order (frag_type (array ! (index - 1)))
                     \<le> indexOf order (frag_type (array ! index)))
       [0..<length array]"

definition throwErrorIfNotSorted :: "selector \<Rightarrow> js_error + unit" where
  "throwErrorIfNotSorted this =
     (if isSorted (res_or_empty this) then Inr () else Inl (Error NOT_SO_ERROR))"

subsection \<open>The fragment-appending operations\<close>

text \<open>
  \<^verbatim>\<open>this.res && this.res.filter((val) => val.type === t).length !== 0\<close>: false on the
  facade, where \<^verbatim>\<open>this.res\<close> is undefined.
\<close>

definition occurs :: "selector \<Rightarrow> kind \<Rightarrow> bool" where
  "occurs this t =
     (case res this of
        None \<Rightarrow> False
      | Some a \<Rightarrow> length (filter (\<lambda>val. frag_type val = t) a) \<noteq> 0)"

text \<open>
  \<^verbatim>\<open>const res = { ...this, res: [...this.res || [], { type: t, value }] };
  res.throwErrorIfNotSorted();
  return res;\<close>
\<close>

definition append_and_check :: "selector \<Rightarrow> kind \<Rightarrow> string \<Rightarrow> js_error + selector" where
  "append_and_check this t v =
     (let r = this\<lparr>res := Some (res_or_empty this @ [\<lparr>frag_type = t, frag_value = v\<rparr>])\<rparr>
      in case throwErrorIfNotSorted r of
           Inl e \<Rightarrow> Inl e
         | Inr u \<Rightarrow> Inr r)"

definition element :: "selector \<Rightarrow> string \<Rightarrow> js_error + selector" where
  "element this v =
     (if occurs this KElement then Inl (Error TWICE_ERROR)
      else append_and_check this KElement v)"

definition id_sel :: "selector \<Rightarrow> string \<Rightarrow> js_error + selector" where
  "id_sel this v =
     (if occurs this KId then Inl (Error TWICE_ERROR)
      else append_and_check this KId v)"

definition class_sel :: "selector \<Rightarrow> string \<Rightarrow> js_error + selector" where
  "class_sel this v = append_and_check this KClass v"

definition attr :: "selector \<Rightarrow> string \<Rightarrow> js_error + selector" where
  "attr this v = append_and_check this KAttribute v"

definition pseudoClass :: "selector \<Rightarrow> string \<Rightarrow> js_error + selector" where
  "pseudoClass this v = append_and_check this KPseudoClass v"

definition pseudoElement :: "selector \<Rightarrow> string \<Rightarrow> js_error + selector" where
  "pseudoElement this v =
     (if occurs this KPseudoElement then Inl (Error TWICE_ERROR)
      else append_and_check this KPseudoElement v)"

subsection \<open>combine and stringify\<close>

definition combine :: "selector \<Rightarrow> selector \<Rightarrow> string \<Rightarrow> selector \<Rightarrow> selector" where
  "combine this selector1 combinator selector2 =
     this\<lparr>res := Some (res_or_empty selector1
                        @ [\<lparr>frag_type = KCombinator, frag_value = combinator\<rparr>]
                        @ res_or_empty selector2)\<rparr>"

text \<open>
  The object literal \<^verbatim>\<open>formatSelector\<close> has the keys \<^verbatim>\<open>id\<close>, \<^verbatim>\<open>class\<close>, \<^verbatim>\<open>attribute\<close>,
  \<^verbatim>\<open>'pseudo-class'\<close>, \<^verbatim>\<open>'pseudo-element'\<close>, \<^verbatim>\<open>combinator\<close> and \<^verbatim>\<open>default\<close>; it has no key
  \<^verbatim>\<open>element\<close>, so the lookup is undefined there.
\<close>

fun formatSelector :: "fragment \<Rightarrow> kind \<Rightarrow> string option" where
  "formatSelector obj KId = Some (''#'' @ frag_value obj)"
| "formatSelector obj KClass = Some (''.'' @ frag_value obj)"
| "formatSelector obj KAttribute = Some (''['' @ frag_value obj @ '']'')"
| "formatSelector obj KPseudoClass = Some ('':'' @ frag_value obj)"
| "formatSelector obj KPseudoElement = Some (''::'' @ frag_value obj)"
| "formatSelector obj KCombinator = Some ('' '' @ frag_value obj @ '' '')"
| "formatSelector obj KElement = None"

definition formatSelector_default :: "fragment \<Rightarrow> string" where
  "formatSelector_default obj = frag_value obj"

text \<open>
  \<^verbatim>\<open>formatSelector[obj.type] || formatSelector.default\<close>: undefined and the empty string
  are falsy.
\<close>

definition format_fragment :: "fragment \<Rightarrow> string" where
  "format_fragment obj =
     (case formatSelector obj (frag_type obj) of
        None \<Rightarrow> formatSelector_default obj
      | Some s \<Rightarrow> if s = [] then formatSelector_default obj else s)"

definition stringify :: "selector \<Rightarrow> string" where
  "stringify this =
     foldl (\<lambda>accumutator obj. accumutator @ format_fragment obj) [] (res_or_empty this)"

text \<open>A chained call \<^verbatim>\<open>a.m(x)\<close> after a call that threw is never made.\<close>

definition and_then :: "js_error + 'a \<Rightarrow> ('a \<Rightarrow> js_error + 'b) \<Rightarrow> js_error + 'b" where
  "and_then r f = (case r of Inl e \<Rightarrow> Inl e | Inr s \<Rightarrow> f s)"

text \<open>The six fragment-appending methods, as a caller selects them by name.\<close>

datatype builder_method = M_element | M_id | M_class | M_attr | M_pseudoClass | M_pseudoElement

fun invoke :: "builder_method \<Rightarrow> selector \<Rightarrow> string \<Rightarrow> js_error + selector" where
  "invoke M_element = element"
| "invoke M_id = id_sel"
| "invoke M_class = class_sel"
| "invoke M_attr = attr"
| "invoke M_pseudoClass = pseudoClass"
| "invoke M_pseudoElement = pseudoElement"

text \<open>The type tag that each method writes into the fragment it appends.\<close>

fun kind_of_method :: "builder_method \<Rightarrow> kind" where
  "kind_of_method M_element = KElement"
| "kind_of_method M_id = KId"
| "kind_of_method M_class = KClass"
| "kind_of_method M_attr = KAttribute"
| "kind_of_method M_pseudoClass = KPseudoClass"
| "kind_of_method M_pseudoElement = KPseudoElement"

subsection \<open>Notions used by the specification\<close>

text \<open>The rank of a kind is its position in \<^verbatim>\<open>order\<close>, as the validation computes it.\<close>

definition rank :: "kind \<Rightarrow> int" where
  "rank t = indexOf order t"

text \<open>
  The rendering of one fragment in the words of the specification: element renders as
  its text, id as \<^verbatim>\<open>#\<close> and the text, class as \<^verbatim>\<open>.\<close> and the text, attribute as the
  text in square brackets, pseudo-class as \<^verbatim>\<open>:\<close> and the text, pseudo-element as
  \<^verbatim>\<open>::\<close> and the text, combinator as the text between two single spaces.
\<close>

definition spec_render :: "fragment \<Rightarrow> string" where
  "spec_render f =
     (case frag_type f of
        KElement \<Rightarrow> frag_value f
      | KId \<Rightarrow> CHR ''#'' # frag_value f
      | KClass \<Rightarrow> CHR ''.'' # frag_value f
      | KAttribute \<Rightarrow> CHR ''['' # frag_value f @ [CHR '']'']
      | KPseudoClass \<Rightarrow> CHR '':'' # frag_value f
      | KPseudoElement \<Rightarrow> CHR '':'' # CHR '':'' # frag_value f
      | KCombinator \<Rightarrow> CHR '' '' # frag_value f @ [CHR '' ''])"

text \<open>How many fragments of a kind a sequence holds.\<close>

definition count_kind :: "kind \<Rightarrow> fragment list \<Rightarrow> nat" where
  "count_kind t fs = length (filter (\<lambda>f. frag_type f = t) fs)"

text \<open>
  A chain of fragment-appending calls \<^verbatim>\<open>s.m1(v1).m2(v2)...\<close>: each call is made on the
  selector that the call before it returned, and the first throw ends the chain.
\<close>

fun chain :: "selector \<Rightarrow> (builder_method \<times> string) list \<Rightarrow> js_error + selector" where
  "chain s [] = Inr s"
| "chain s ((m, v) # calls) =
     (case invoke m s v of
        Inl e \<Rightarrow> Inl e
      | Inr s' \<Rightarrow> chain s' calls)"

subsection \<open>The same operations on a store of objects\<close>

text \<open>
  In the program a selector is an object that refers to an array, and the array refers
  to fragment objects; \<^verbatim>\<open>[...this.res || [], { type, value }]\<close> builds a new array that
  shares the fragment objects of the old one, and \<^verbatim>\<open>{ ...this, res: ... }\<close> builds a new
  object. The store is the list of all objects allocated so far; an address is a
  position in the list.
\<close>

type_synonym addr = nat

datatype cell =
  SelectorCell "addr option"
| ArrayCell "addr list"
| FragmentCell fragment

type_synonym store = "cell list"

definition alloc :: "store \<Rightarrow> cell \<Rightarrow> addr \<times> store" where
  "alloc h c = (length h, h @ [c])"

definition cell_at :: "store \<Rightarrow> addr \<Rightarrow> cell option" where
  "cell_at h a = (if a < length h then Some (h ! a) else None)"

text \<open>Reading an array of fragment references; \<open>None\<close> on a dangling or ill-typed one.\<close>

fun read_fragments :: "store \<Rightarrow> addr list \<Rightarrow> fragment list option" where
  "read_fragments h [] = Some []"
| "read_fragments h (a # as) =
     (case cell_at h a of
        Some (FragmentCell f) \<Rightarrow>
          (case read_fragments h as of None \<Rightarrow> None | Some fs \<Rightarrow> Some (f # fs))
      | _ \<Rightarrow> None)"

text \<open>The value that a selector object stands for.\<close>

definition read_selector :: "store \<Rightarrow> addr \<Rightarrow> selector option" where
  "read_selector h a =
     (case cell_at h a of
        Some (SelectorCell None) \<Rightarrow> Some \<lparr>res = None\<rparr>
      | Some (SelectorCell (Some arr)) \<Rightarrow>
          (case cell_at h arr of
             Some (ArrayCell es) \<Rightarrow>
               (case read_fragments h es of None \<Rightarrow> None | Some fs \<Rightarrow> Some \<lparr>res = Some fs\<rparr>)
           | _ \<Rightarrow> None)
      | _ \<Rightarrow> None)"

text \<open>\<^verbatim>\<open>...this.res || []\<close>: the references that the array of \<^verbatim>\<open>this\<close> holds.\<close>

definition spread_res :: "store \<Rightarrow> addr \<Rightarrow> addr list" where
  "spread_res h this =
     (case cell_at h this of
        Some (SelectorCell (Some arr)) \<Rightarrow>
          (case cell_at h arr of Some (ArrayCell es) \<Rightarrow> es | _ \<Rightarrow> [])
      | _ \<Rightarrow> [])"

text \<open>
  A call returns the store it leaves and either the thrown error or the address of the
  returned object; \<open>None\<close> when \<^verbatim>\<open>this\<close> is not a selector object of the store.
\<close>

definition h_append_and_check ::
  "store \<Rightarrow> addr \<Rightarrow> kind \<Rightarrow> string \<Rightarrow> (store \<times> (js_error + addr)) option" where
  "h_append_and_check h this t v =
     (let (f, h1) = alloc h (FragmentCell \<lparr>frag_type = t, frag_value = v\<rparr>);
          (arr, h2) = alloc h1 (ArrayCell (spread_res h this @ [f]));
          (r, h3) = alloc h2 (SelectorCell (Some arr))
      in case read_selector h3 r of
           None \<Rightarrow> None
         | Some s \<Rightarrow>
             (case throwErrorIfNotSorted s of
                Inl e \<Rightarrow> Some (h3, Inl e)
              | Inr u \<Rightarrow> Some (h3, Inr r)))"

definition h_checked ::
  "store \<Rightarrow> addr \<Rightarrow> kind \<Rightarrow> string \<Rightarrow> (store \<times> (js_error + addr)) option" where
  "h_checked h this t v =
     (case read_selector h this of
        None \<Rightarrow> None
      | Some s \<Rightarrow>
          if occurs s t then Some (h, Inl (Error TWICE_ERROR))
          else h_append_and_check h this t v)"

definition h_unchecked ::
  "store \<Rightarrow> addr \<Rightarrow> kind \<Rightarrow> string \<Rightarrow> (store \<times> (js_error + addr)) option" where
  "h_unchecked h this t v =
     (case read_selector h this of
        None \<Rightarrow> None
      | Some s \<Rightarrow> h_append_and_check h this t v)"

fun h_invoke ::
  "builder_method \<Rightarrow> store \<Rightarrow> addr \<Rightarrow> string \<Rightarrow> (store \<times> (js_error + addr)) option" where
  "h_invoke M_element h this v = h_checked h this KElement v"
| "h_invoke M_id h this v = h_checked h this KId v"
| "h_invoke M_class h this v = h_unchecked h this KClass v"
| "h_invoke M_attr h this v = h_unchecked h this KAttribute v"
| "h_invoke M_pseudoClass h this v = h_unchecked h this KPseudoClass v"
| "h_invoke M_pseudoElement h this v = h_checked h this KPseudoElement v"

definition h_combine ::
  "store \<Rightarrow> addr \<Rightarrow> addr \<Rightarrow> string \<Rightarrow> addr \<Rightarrow> (store \<times> addr) option" where
  "h_combine h this selector1 combinator selector2 =
     (case (read_selector h this, read_selector h selector1, read_selector h selector2) of
        (Some s, Some s1, Some s2) \<Rightarrow>
          (let (f, h1) = alloc h (FragmentCell \<lparr>frag_type = KCombinator, frag_value = combinator\<rparr>);
               (arr, h2) = alloc h1 (ArrayCell (spread_res h selector1 @ [f] @ spread_res h selector2));
               (r, h3) = alloc h2 (SelectorCell (Some arr))
           in Some (h3, r))
      | _ \<Rightarrow> None)"

definition h_stringify :: "store \<Rightarrow> addr \<Rightarrow> string option" where
  "h_stringify h this = map_option stringify (read_selector h this)"

section \<open>Basic facts\<close>

subsection \<open>Ranks and the order scan\<close>

lemma rank_simps:
  "rank KElement = 0" "rank KId = 1" "rank KClass = 2" "rank KAttribute = 3"
  "rank KPseudoClass = 4" "rank KPseudoElement = 5" "rank KCombinator = - 1"
  by (simp_all add: rank_def indexOf_def order_def)

lemma rank_combinator_least: "t \<noteq> KCombinator \<Longrightarrow> rank KCombinator < rank t"
  by (cases t) (simp_all add: rank_simps)

text \<open>The scan compares every fragment but the first with its left neighbour.\<close>

lemma isSorted_nth:
  "isSorted xs \<longleftrightarrow>
     (\<forall>i. Suc i < length xs \<longrightarrow> rank (frag_type (xs ! i)) \<le> rank (frag_type (xs ! Suc i)))"
proof
  assume s: "isSorted xs"
  show "\<forall>i. Suc i < length xs \<longrightarrow> rank (frag_type (xs ! i)) \<le> rank (frag_type (xs ! Suc i))"
  proof (intro allI impI)
    fix i assume "Suc i < length xs"
    with s have "Suc i = 0 \<or> rank (frag_type (xs ! (Suc i - 1))) \<le> rank (frag_type (xs ! Suc i))"
      unfolding isSorted_def list_all_iff rank_def by (metis atLeastLessThan_iff set_upt zero_le)
    then show "rank (frag_type (xs ! i)) \<le> rank (frag_type (xs ! Suc i))" by simp
  qed
next
  assume a: "\<forall>i. Suc i < length xs \<longrightarrow> rank (frag_type (xs ! i)) \<le> rank (frag_type (xs ! Suc i))"
  show "isSorted xs"
    unfolding isSorted_def list_all_iff
  proof
    fix index assume "index \<in> set [0..<length xs]"
    then have lt: "index < length xs" by simp
    show "index = 0 \<or> indexOf order (frag_type (xs ! (index - 1)))
                        \<le> indexOf order (frag_type (xs ! index))"
    proof (cases index)
      case 0
      then show ?thesis by simp
    next
      case (Suc j)
      with lt a have "rank (frag_type (xs ! j)) \<le> rank (frag_type (xs ! Suc j))" by simp
      with Suc show ?thesis by (simp add: rank_def)
    qed
  qed
qed

lemma isSorted_sorted: "isSorted xs \<longleftrightarrow> sorted (map (\<lambda>f. rank (frag_type f)) xs)"
  by (simp add: isSorted_nth sorted_iff_nth_Suc)

lemma isSorted_snoc:
  "isSorted (xs @ [f]) \<longleftrightarrow>
     isSorted xs \<and> (xs = [] \<or> rank (frag_type (last xs)) \<le> rank (frag_type f))"
proof (cases "xs = []")
  case True
  then show ?thesis by (simp add: isSorted_sorted)
next
  case False
  then obtain ys y where xs: "xs = ys @ [y]" by (metis rev_exhaust)
  show ?thesis unfolding isSorted_sorted xs
    by (auto simp: sorted_append)
qed

lemma all_same_kind_sorted: "\<forall>f \<in> set fs. frag_type f = t \<Longrightarrow> isSorted fs"
  unfolding isSorted_nth by (metis Suc_lessD nth_mem order_refl)

lemma not_sorted_after_combinator:
  assumes "fs = xs @ [x, y] @ ys" "frag_type x \<noteq> KCombinator" "frag_type y = KCombinator"
  shows "\<not> isSorted (fs @ zs)"
proof
  assume "isSorted (fs @ zs)"
  then have "sorted (map (\<lambda>f. rank (frag_type f)) (xs @ [x, y] @ ys @ zs))"
    using assms(1) by (simp add: isSorted_sorted)
  then have "rank (frag_type x) \<le> rank (frag_type y)"
    by (simp add: sorted_append)
  with rank_combinator_least [OF assms(2)] assms(3) show False by simp
qed

subsection \<open>The appending methods, unfolded\<close>

lemma errors_differ: "TWICE_ERROR \<noteq> NOT_SO_ERROR"
  by (simp add: TWICE_ERROR_def NOT_SO_ERROR_def)

lemma append_and_check_eq:
  "append_and_check s t v =
     (if isSorted (res_or_empty s @ [\<lparr>frag_type = t, frag_value = v\<rparr>])
      then Inr (s\<lparr>res := Some (res_or_empty s @ [\<lparr>frag_type = t, frag_value = v\<rparr>])\<rparr>)
      else Inl (Error NOT_SO_ERROR))"
  by (simp add: append_and_check_def throwErrorIfNotSorted_def res_or_empty_def Let_def)

lemma occurs_iff: "occurs s t \<longleftrightarrow> t \<in> set (map frag_type (res_or_empty s))"
  by (auto simp: occurs_def res_or_empty_def filter_empty_conv split: option.splits)

lemma occurs_count: "occurs s t \<longleftrightarrow> count_kind t (res_or_empty s) \<noteq> 0"
  by (simp add: occurs_def res_or_empty_def count_kind_def split: option.splits)

lemma invoke_eq:
  "invoke m s v =
     (if m \<in> {M_element, M_id, M_pseudoElement} \<and> occurs s (kind_of_method m)
      then Inl (Error TWICE_ERROR)
      else append_and_check s (kind_of_method m) v)"
  by (cases m)
     (simp_all add: element_def id_sel_def class_sel_def attr_def pseudoClass_def
        pseudoElement_def)

lemma invoke_Inr:
  "invoke m s v = Inr s' \<Longrightarrow>
     res s' = Some (res_or_empty s @ [\<lparr>frag_type = kind_of_method m, frag_value = v\<rparr>])
     \<and> isSorted (res_or_empty s @ [\<lparr>frag_type = kind_of_method m, frag_value = v\<rparr>])
     \<and> (m \<in> {M_element, M_id, M_pseudoElement} \<longrightarrow> \<not> occurs s (kind_of_method m))"
  by (auto simp: invoke_eq append_and_check_eq split: if_splits)

lemma invoke_out_of_order_iff:
  "invoke m s v = Inl (Error NOT_SO_ERROR) \<longleftrightarrow>
     invoke m s v \<noteq> Inl (Error TWICE_ERROR)
     \<and> \<not> isSorted (res_or_empty s @ [\<lparr>frag_type = kind_of_method m, frag_value = v\<rparr>])"
  using errors_differ by (auto simp: invoke_eq append_and_check_eq)

lemma kind_of_method_not_combinator: "kind_of_method m \<noteq> KCombinator"
  by (cases m) simp_all

lemma singleton_kind_method:
  "kind_of_method m \<in> {KElement, KId, KPseudoElement}
     \<longleftrightarrow> m \<in> {M_element, M_id, M_pseudoElement}"
  by (cases m) simp_all

lemma count_kind_snoc:
  "count_kind t (fs @ [f]) = count_kind t fs + (if frag_type f = t then 1 else 0)"
  by (simp add: count_kind_def)

subsection \<open>Rendering\<close>

lemma format_fragment_spec: "format_fragment f = spec_render f"
  by (cases "frag_type f")
     (simp_all add: format_fragment_def spec_render_def formatSelector_default_def)

lemma foldl_append_concat: "foldl (\<lambda>acc x. acc @ g x) a xs = a @ concat (map g xs)"
  by (induction xs arbitrary: a) simp_all

lemma stringify_eq: "stringify s = concat (map format_fragment (res_or_empty s))"
  by (simp add: stringify_def foldl_append_concat)

subsection \<open>The store only grows\<close>

lemma cell_at_append: "cell_at h a = Some c \<Longrightarrow> cell_at (h @ h') a = Some c"
  by (auto simp: cell_at_def nth_append split: if_splits)

lemma cell_at_fresh: "cell_at (h @ [c]) (length h) = Some c"
  by (simp add: cell_at_def)

lemma read_fragments_append:
  "read_fragments h as = Some fs \<Longrightarrow> read_fragments (h @ h') as = Some fs"
proof (induction as arbitrary: fs)
  case Nil
  then show ?case by simp
next
  case (Cons a as)
  from Cons.prems obtain f fs' where a: "cell_at h a = Some (FragmentCell f)"
    and r: "read_fragments h as = Some fs'" and fs: "fs = f # fs'"
    by (auto split: option.splits cell.splits)
  from cell_at_append [OF a] Cons.IH [OF r] fs show ?case by simp
qed

lemma read_fragments_snoc:
  "read_fragments h as = Some fs \<Longrightarrow> cell_at h a = Some (FragmentCell f) \<Longrightarrow>
     read_fragments h (as @ [a]) = Some (fs @ [f])"
  by (induction as arbitrary: fs) (auto split: option.splits cell.splits)

lemma read_fragments_app:
  "read_fragments h as = Some fs \<Longrightarrow> read_fragments h bs = Some gs \<Longrightarrow>
     read_fragments h (as @ bs) = Some (fs @ gs)"
  by (induction as arbitrary: fs) (auto split: option.splits cell.splits)

lemma read_selector_append:
  "read_selector h a = Some s \<Longrightarrow> read_selector (h @ h') a = Some s"
proof -
  assume rs: "read_selector h a = Some s"
  then obtain ro where c: "cell_at h a = Some (SelectorCell ro)"
    by (auto simp: read_selector_def split: option.splits cell.splits)
  show ?thesis
  proof (cases ro)
    case None
    with rs c cell_at_append [OF c, of h'] show ?thesis by (simp add: read_selector_def)
  next
    case (Some arr)
    with rs c obtain es fs where e: "cell_at h arr = Some (ArrayCell es)"
      and f: "read_fragments h es = Some fs" and s: "s = \<lparr>res = Some fs\<rparr>"
      by (auto simp: read_selector_def split: option.splits cell.splits)
    from cell_at_append [OF c, of h'] cell_at_append [OF e, of h'] read_fragments_append [OF f, of h'] Some s
    show ?thesis by (simp add: read_selector_def)
  qed
qed

lemma spread_res_read:
  "read_selector h this = Some s \<Longrightarrow> read_fragments h (spread_res h this) = Some (res_or_empty s)"
  by (auto simp: read_selector_def spread_res_def res_or_empty_def split: option.splits cell.splits)

lemma read_fresh_selector:
  assumes "read_fragments h es = Some fs"
  shows "read_selector (h @ [FragmentCell f, ArrayCell (es @ [length h]), SelectorCell (Some (Suc (length h)))])
           (Suc (Suc (length h))) = Some \<lparr>res = Some (fs @ [f])\<rparr>"
proof -
  let ?h = "h @ [FragmentCell f, ArrayCell (es @ [length h]), SelectorCell (Some (Suc (length h)))]"
  have 1: "cell_at ?h (Suc (Suc (length h))) = Some (SelectorCell (Some (Suc (length h))))"
    by (simp add: cell_at_def nth_append)
  have 2: "cell_at ?h (Suc (length h)) = Some (ArrayCell (es @ [length h]))"
    by (simp add: cell_at_def nth_append)
  have 3: "cell_at ?h (length h) = Some (FragmentCell f)"
    by (simp add: cell_at_def nth_append)
  have "read_fragments ?h (es @ [length h]) = Some (fs @ [f])"
    using read_fragments_snoc [OF read_fragments_append [OF assms] 3] .
  with 1 2 show ?thesis by (simp add: read_selector_def)
qed

lemma h_append_and_check_refines:
  assumes "read_selector h this = Some s"
  shows "\<exists>new. length new = 3
          \<and> (case append_and_check s t v of
               Inl e \<Rightarrow> h_append_and_check h this t v = Some (h @ new, Inl e)
             | Inr s' \<Rightarrow> h_append_and_check h this t v = Some (h @ new, Inr (length h + 2))
                         \<and> read_selector (h @ new) (length h + 2) = Some s')"
proof -
  let ?f = "\<lparr>frag_type = t, frag_value = v\<rparr>"
  let ?new = "[FragmentCell ?f, ArrayCell (spread_res h this @ [length h]),
               SelectorCell (Some (Suc (length h)))]"
  have rd: "read_selector (h @ ?new) (Suc (Suc (length h))) = Some \<lparr>res = Some (res_or_empty s @ [?f])\<rparr>"
    using read_fresh_selector [OF spread_res_read [OF assms]] .
  have "length ?new = 3" by simp
  moreover have "case append_and_check s t v of
               Inl e \<Rightarrow> h_append_and_check h this t v = Some (h @ ?new, Inl e)
             | Inr s' \<Rightarrow> h_append_and_check h this t v = Some (h @ ?new, Inr (length h + 2))
                         \<and> read_selector (h @ ?new) (length h + 2) = Some s'"
    using rd
    by (simp add: h_append_and_check_def alloc_def append_and_check_def Let_def
          throwErrorIfNotSorted_def res_or_empty_def)
  ultimately show ?thesis by blast
qed

lemma h_invoke_refines:
  assumes "read_selector h this = Some s"
  shows "\<exists>new. (case invoke m s v of
               Inl e \<Rightarrow> h_invoke m h this v = Some (h @ new, Inl e)
             | Inr s' \<Rightarrow> \<exists>r. h_invoke m h this v = Some (h @ new, Inr r)
                         \<and> read_selector (h @ new) r = Some s')"
proof (cases "m \<in> {M_element, M_id, M_pseudoElement} \<and> occurs s (kind_of_method m)")
  case True
  then have i: "invoke m s v = Inl (Error TWICE_ERROR)" by (simp add: invoke_eq)
  from True assms have h: "h_invoke m h this v = Some (h @ [], Inl (Error TWICE_ERROR))"
    by (cases m) (simp_all add: h_checked_def)
  show ?thesis
    by (rule exI [of _ "[]"]) (simp only: i h sum.case)
next
  case False
  then have i: "invoke m s v = append_and_check s (kind_of_method m) v"
    unfolding invoke_eq by presburger
  from False assms have h: "h_invoke m h this v = h_append_and_check h this (kind_of_method m) v"
    by (cases m) (simp_all add: h_checked_def h_unchecked_def)
  from h_append_and_check_refines [OF assms, of "kind_of_method m" v]
  obtain new where n: "case append_and_check s (kind_of_method m) v of
               Inl e \<Rightarrow> h_append_and_check h this (kind_of_method m) v = Some (h @ new, Inl e)
             | Inr s' \<Rightarrow> h_append_and_check h this (kind_of_method m) v
                           = Some (h @ new, Inr (length h + 2))
                         \<and> read_selector (h @ new) (length h + 2) = Some s'"
    by blast
  show ?thesis
  proof (rule exI [of _ new], cases "append_and_check s (kind_of_method m) v")
    case (Inl e)
    with n show "case invoke m s v of
               Inl e \<Rightarrow> h_invoke m h this v = Some (h @ new, Inl e)
             | Inr s' \<Rightarrow> \<exists>r. h_invoke m h this v = Some (h @ new, Inr r)
                         \<and> read_selector (h @ new) r = Some s'"
      by (simp add: i h)
  next
    case (Inr s')
    with n show "case invoke m s v of
               Inl e \<Rightarrow> h_invoke m h this v = Some (h @ new, Inl e)
             | Inr s' \<Rightarrow> \<exists>r. h_invoke m h this v = Some (h @ new, Inr r)
                         \<and> read_selector (h @ new) r = Some s'"
      by (simp add: i h)
  qed
qed

lemma h_invoke_frame:
  assumes "h_invoke m h this v = Some (h', r)"
  shows "\<exists>new. h' = h @ new"
proof -
  from assms obtain s where s: "read_selector h this = Some s"
    by (cases m) (auto simp: h_checked_def h_unchecked_def split: option.splits)
  from h_invoke_refines [OF s, of m v] assms show ?thesis
    by (cases "invoke m s v") auto
qed

lemma h_combine_refines:
  assumes "read_selector h this = Some s" "read_selector h a = Some sa" "read_selector h b = Some sb"
  shows "\<exists>new r. h_combine h this a c b = Some (h @ new, r)
           \<and> read_selector (h @ new) r = Some (combine s sa c sb)"
proof -
  let ?f = "\<lparr>frag_type = KCombinator, frag_value = c\<rparr>"
  let ?es = "spread_res h a @ [length h] @ spread_res h b"
  let ?new = "[FragmentCell ?f, ArrayCell ?es, SelectorCell (Some (Suc (length h)))]"
  let ?h = "h @ ?new"
  have 1: "cell_at ?h (Suc (Suc (length h))) = Some (SelectorCell (Some (Suc (length h))))"
    by (simp add: cell_at_def nth_append)
  have 2: "cell_at ?h (Suc (length h)) = Some (ArrayCell ?es)"
    by (simp add: cell_at_def nth_append)
  have 3: "cell_at ?h (length h) = Some (FragmentCell ?f)"
    by (simp add: cell_at_def nth_append)
  have ra: "read_fragments ?h (spread_res h a) = Some (res_or_empty sa)"
    using read_fragments_append [OF spread_res_read [OF assms(2)]] .
  have rb: "read_fragments ?h (spread_res h b) = Some (res_or_empty sb)"
    using read_fragments_append [OF spread_res_read [OF assms(3)]] .
  have "read_fragments ?h [length h] = Some [?f]" using 3 by simp
  from read_fragments_app [OF ra read_fragments_app [OF this rb]]
  have "read_fragments ?h ?es = Some (res_or_empty sa @ [?f] @ res_or_empty sb)" .
  with 1 2 have "read_selector ?h (Suc (Suc (length h))) = Some (combine s sa c sb)"
    by (simp add: read_selector_def combine_def)
  moreover have "h_combine h this a c b = Some (?h, Suc (Suc (length h)))"
    using assms by (simp add: h_combine_def alloc_def)
  ultimately show ?thesis by blast
qed

lemma h_combine_frame:
  assumes "h_combine h this a c b = Some (h', r)"
  shows "\<exists>new. h' = h @ new"
  using assms by (auto simp: h_combine_def alloc_def split: option.splits)

section \<open>Rendering\<close>

text \<open>
  Claim C1. For every selector, \<open>stringify\<close> renders the fragments from left to right and
  returns the concatenation of the renderings of the specification: element as its text,
  id as \<^verbatim>\<open>#\<close> and the text, class as \<^verbatim>\<open>.\<close> and the text, attribute as the text in
  square brackets, pseudo-class as \<^verbatim>\<open>:\<close> and the text, pseudo-element as \<^verbatim>\<open>::\<close> and the
  text, combinator as the text between two spaces, so that the space combinator renders
  as three spaces. A selector with no fragments, be it the facade or one with an empty
  array, renders as the empty string. The statement is about the array in the property
  \<^verbatim>\<open>res\<close> itself, and one selector with a fragment of every kind is rendered in full.
\<close>

theorem stringify_concat_renderings:
  "stringify \<lparr>res = Some fs\<rparr> = concat (map spec_render fs)
   \<and> stringify \<lparr>res = None\<rparr> = []
   \<and> stringify s = concat (map spec_render (res_or_empty s))
   \<and> stringify \<lparr>res = Some [\<lparr>frag_type = KCombinator, frag_value = '' ''\<rparr>]\<rparr> = ''   ''
   \<and> spec_render \<lparr>frag_type = KCombinator, frag_value = '' ''\<rparr> = ''   ''
   \<and> stringify cssSelectorBuilder = ''''
   \<and> stringify \<lparr>res = Some []\<rparr> = ''''
   \<and> stringify \<lparr>res = Some [\<lparr>frag_type = KElement, frag_value = ''a''\<rparr>,
                              \<lparr>frag_type = KId, frag_value = ''x''\<rparr>,
                              \<lparr>frag_type = KClass, frag_value = ''c''\<rparr>,
                              \<lparr>frag_type = KAttribute, frag_value = ''h''\<rparr>,
                              \<lparr>frag_type = KPseudoClass, frag_value = ''f''\<rparr>,
                              \<lparr>frag_type = KPseudoElement, frag_value = ''g''\<rparr>,
                              \<lparr>frag_type = KCombinator, frag_value = ''+''\<rparr>,
                              \<lparr>frag_type = KElement, frag_value = ''b''\<rparr>]\<rparr>
       = ''a#x.c[h]:f::g + b''"
proof -
  have fold: "foldl (\<lambda>acc obj. acc @ format_fragment obj) [] xs = concat (map spec_render xs)"
    for xs
  proof -
    have "(\<lambda>acc obj. acc @ format_fragment obj) = (\<lambda>acc obj. acc @ spec_render obj)"
      by (simp add: format_fragment_spec)
    then show ?thesis by (simp add: foldl_append_concat)
  qed
  have 1: "stringify \<lparr>res = Some fs\<rparr> = concat (map spec_render fs)"
    unfolding stringify_def fold by (simp add: res_or_empty_def)
  have 2: "stringify \<lparr>res = None\<rparr> = []"
    unfolding stringify_def fold by (simp add: res_or_empty_def)
  have 3: "stringify s = concat (map spec_render (res_or_empty s))"
    unfolding stringify_def fold by (rule refl)
  have 4: "stringify \<lparr>res = Some [\<lparr>frag_type = KCombinator, frag_value = '' ''\<rparr>]\<rparr> = ''   ''"
    by code_simp
  have 5: "spec_render \<lparr>frag_type = KCombinator, frag_value = '' ''\<rparr> = ''   ''"
    by (simp add: spec_render_def)
  have 6: "stringify cssSelectorBuilder = ''''"
    by (simp add: stringify_def cssSelectorBuilder_def res_or_empty_def)
  have 7: "stringify \<lparr>res = Some []\<rparr> = ''''"
    by (simp add: stringify_def res_or_empty_def)
  have 8: "stringify \<lparr>res = Some [\<lparr>frag_type = KElement, frag_value = ''a''\<rparr>,
                              \<lparr>frag_type = KId, frag_value = ''x''\<rparr>,
                              \<lparr>frag_type = KClass, frag_value = ''c''\<rparr>,
                              \<lparr>frag_type = KAttribute, frag_value = ''h''\<rparr>,
                              \<lparr>frag_type = KPseudoClass, frag_value = ''f''\<rparr>,
                              \<lparr>frag_type = KPseudoElement, frag_value = ''g''\<rparr>,
                              \<lparr>frag_type = KCombinator, frag_value = ''+''\<rparr>,
                              \<lparr>frag_type = KElement, frag_value = ''b''\<rparr>]\<rparr>
       = ''a#x.c[h]:f::g + b''"
    by code_simp
  from 1 2 3 4 5 6 7 8 show ?thesis by blast
qed

text \<open>
  Claim C8. The two worked examples: \<^verbatim>\<open>combine(element('div').id('main'), '+',
  element('table').id('data'))\<close> renders as \<^verbatim>\<open>div#main + table#data\<close>, and
  \<^verbatim>\<open>id('main').class('container').class('editable')\<close> renders as
  \<^verbatim>\<open>#main.container.editable\<close>; no call in either chain throws.
\<close>

theorem worked_examples:
  "map_sum id stringify
     (and_then (and_then (element cssSelectorBuilder ''div'') (\<lambda>s. id_sel s ''main''))
        (\<lambda>a. and_then (and_then (element cssSelectorBuilder ''table'') (\<lambda>s. id_sel s ''data''))
           (\<lambda>b. Inr (combine cssSelectorBuilder a ''+'' b))))
     = Inr ''div#main + table#data''
   \<and> map_sum id stringify
       (and_then (and_then (id_sel cssSelectorBuilder ''main'') (\<lambda>s. class_sel s ''container''))
          (\<lambda>s. class_sel s ''editable''))
     = Inr ''#main.container.editable''"
  by code_simp

section \<open>The invariants of selectors built by appending\<close>

lemma invoke_preserves:
  assumes call: "invoke m s v = Inr s'"
    and inv: "isSorted (res_or_empty s)
      \<and> (\<forall>f \<in> set (res_or_empty s). frag_type f \<noteq> KCombinator)
      \<and> (\<forall>t \<in> {KElement, KId, KPseudoElement}. count_kind t (res_or_empty s) \<le> 1)"
  shows "isSorted (res_or_empty s')
      \<and> (\<forall>f \<in> set (res_or_empty s'). frag_type f \<noteq> KCombinator)
      \<and> (\<forall>t \<in> {KElement, KId, KPseudoElement}. count_kind t (res_or_empty s') \<le> 1)"
proof -
  let ?f = "\<lparr>frag_type = kind_of_method m, frag_value = v\<rparr>"
  from invoke_Inr [OF call]
  have r: "res_or_empty s' = res_or_empty s @ [?f]"
    and srt: "isSorted (res_or_empty s @ [?f])"
    and dup: "m \<in> {M_element, M_id, M_pseudoElement} \<longrightarrow> \<not> occurs s (kind_of_method m)"
    by (simp_all add: res_or_empty_def)
  have c: "\<forall>f \<in> set (res_or_empty s'). frag_type f \<noteq> KCombinator"
    using inv r by (simp add: kind_of_method_not_combinator)
  have "count_kind t (res_or_empty s') \<le> 1" if t: "t \<in> {KElement, KId, KPseudoElement}" for t
  proof (cases "kind_of_method m = t")
    case True
    with t have "m \<in> {M_element, M_id, M_pseudoElement}"
      using singleton_kind_method [of m] by simp
    with dup have "\<not> occurs s (kind_of_method m)" by blast
    with True have "count_kind t (res_or_empty s) = 0" by (simp add: occurs_count)
    then show ?thesis by (simp add: r count_kind_snoc)
  next
    case False
    moreover from inv t have "count_kind t (res_or_empty s) \<le> 1" by blast
    ultimately show ?thesis by (simp add: r count_kind_snoc)
  qed
  with srt c show ?thesis by (simp add: r)
qed

lemma chain_preserves:
  "chain s calls = Inr s' \<Longrightarrow>
   isSorted (res_or_empty s)
      \<and> (\<forall>f \<in> set (res_or_empty s). frag_type f \<noteq> KCombinator)
      \<and> (\<forall>t \<in> {KElement, KId, KPseudoElement}. count_kind t (res_or_empty s) \<le> 1) \<Longrightarrow>
   isSorted (res_or_empty s')
      \<and> (\<forall>f \<in> set (res_or_empty s'). frag_type f \<noteq> KCombinator)
      \<and> (\<forall>t \<in> {KElement, KId, KPseudoElement}. count_kind t (res_or_empty s') \<le> 1)"
proof (induction calls arbitrary: s)
  case Nil
  then show ?case by simp
next
  case (Cons call calls)
  obtain m v where mv: "call = (m, v)" by (cases call)
  with Cons.prems(1) obtain s1 where 1: "invoke m s v = Inr s1" and 2: "chain s1 calls = Inr s'"
    by (cases "invoke m s v") simp_all
  from Cons.IH [OF 2 invoke_preserves [OF 1 Cons.prems(2)]] show ?case .
qed

text \<open>
  Claim C2. Every selector that a chain of calls of the six fragment-appending methods
  returns, starting from the empty selector, holds at most one element fragment, at
  most one id fragment and at most one pseudo-element fragment, and the ranks of its
  non-combinator fragments never decrease from left to right, where element has rank 0,
  id 1, class 2, attribute 3, pseudo-class 4 and pseudo-element 5.
\<close>

theorem reachable_selectors_satisfy_invariants:
  assumes "res_or_empty s0 = []" and "chain s0 calls = Inr s"
  shows "count_kind KElement (res_or_empty s) \<le> 1
         \<and> count_kind KId (res_or_empty s) \<le> 1
         \<and> count_kind KPseudoElement (res_or_empty s) \<le> 1
         \<and> sorted (map (\<lambda>f. rank (frag_type f))
                      (filter (\<lambda>f. frag_type f \<noteq> KCombinator) (res_or_empty s)))
         \<and> rank KElement = 0 \<and> rank KId = 1 \<and> rank KClass = 2
         \<and> rank KAttribute = 3 \<and> rank KPseudoClass = 4 \<and> rank KPseudoElement = 5"
proof -
  have "isSorted (res_or_empty s0)
      \<and> (\<forall>f \<in> set (res_or_empty s0). frag_type f \<noteq> KCombinator)
      \<and> (\<forall>t \<in> {KElement, KId, KPseudoElement}. count_kind t (res_or_empty s0) \<le> 1)"
    using assms(1) by (simp add: isSorted_def count_kind_def)
  from chain_preserves [OF assms(2) this]
  have srt: "isSorted (res_or_empty s)"
    and nc: "\<forall>f \<in> set (res_or_empty s). frag_type f \<noteq> KCombinator"
    and cnt: "\<forall>t \<in> {KElement, KId, KPseudoElement}. count_kind t (res_or_empty s) \<le> 1"
    by blast+
  from nc have "filter (\<lambda>f. frag_type f \<noteq> KCombinator) (res_or_empty s) = res_or_empty s"
    by (simp add: filter_id_conv)
  with srt have "sorted (map (\<lambda>f. rank (frag_type f))
                      (filter (\<lambda>f. frag_type f \<noteq> KCombinator) (res_or_empty s)))"
    by (simp add: isSorted_sorted)
  with cnt show ?thesis by (simp add: rank_simps)
qed

text \<open>The chain \<^verbatim>\<open>element('a').class('c').class('d')\<close> on the facade.\<close>

theorem reachable_selectors_satisfy_invariants_witness:
  "res_or_empty cssSelectorBuilder = []
   \<and> chain cssSelectorBuilder [(M_element, ''a''), (M_class, ''c''), (M_class, ''d'')]
       = Inr \<lparr>res = Some [\<lparr>frag_type = KElement, frag_value = ''a''\<rparr>,
                           \<lparr>frag_type = KClass, frag_value = ''c''\<rparr>,
                           \<lparr>frag_type = KClass, frag_value = ''d''\<rparr>]\<rparr>
   \<and> count_kind KElement [\<lparr>frag_type = KElement, frag_value = ''a''\<rparr>,
                          \<lparr>frag_type = KClass, frag_value = ''c''\<rparr>,
                          \<lparr>frag_type = KClass, frag_value = ''d''\<rparr>] \<le> 1
   \<and> sorted (map (\<lambda>f. rank (frag_type f))
        (filter (\<lambda>f. frag_type f \<noteq> KCombinator)
           [\<lparr>frag_type = KElement, frag_value = ''a''\<rparr>,
            \<lparr>frag_type = KClass, frag_value = ''c''\<rparr>,
            \<lparr>frag_type = KClass, frag_value = ''d''\<rparr>]))"
proof -
  let ?a = "\<lparr>frag_type = KElement, frag_value = ''a''\<rparr>"
  let ?c = "\<lparr>frag_type = KClass, frag_value = ''c''\<rparr>"
  let ?d = "\<lparr>frag_type = KClass, frag_value = ''d''\<rparr>"
  have 1: "res_or_empty cssSelectorBuilder = []" by code_simp
  have 2: "chain cssSelectorBuilder [(M_element, ''a''), (M_class, ''c''), (M_class, ''d'')]
             = Inr \<lparr>res = Some [?a, ?c, ?d]\<rparr>"
    by code_simp
  from reachable_selectors_satisfy_invariants [OF 1 2] 1 2 show ?thesis
    by (simp add: res_or_empty_def)
qed

section \<open>Failures of the appending methods\<close>

text \<open>
  Claim C3. On a selector whose sequence already holds a fragment of kind element, a
  call of \<open>element\<close> fails with the duplicate error, whatever the text; likewise
  \<open>id\<close> and \<open>pseudoElement\<close> for their kinds. The methods \<open>class\<close>, \<open>attr\<close> and
  \<open>pseudoClass\<close> never fail with the duplicate error, and a selector made of any number
  of class fragments (of attribute fragments, of pseudo-class fragments) accepts one
  more.
\<close>

theorem duplicate_check_only_for_singleton_kinds:
  "(KElement \<in> set (map frag_type (res_or_empty s)) \<longrightarrow>
      element s v = Inl (Error TWICE_ERROR))
   \<and> (KId \<in> set (map frag_type (res_or_empty s)) \<longrightarrow>
      id_sel s v = Inl (Error TWICE_ERROR))
   \<and> (KPseudoElement \<in> set (map frag_type (res_or_empty s)) \<longrightarrow>
      pseudoElement s v = Inl (Error TWICE_ERROR))
   \<and> class_sel s v \<noteq> Inl (Error TWICE_ERROR)
   \<and> attr s v \<noteq> Inl (Error TWICE_ERROR)
   \<and> pseudoClass s v \<noteq> Inl (Error TWICE_ERROR)
   \<and> class_sel \<lparr>res = Some (map (\<lambda>t. \<lparr>frag_type = KClass, frag_value = t\<rparr>) ts)\<rparr> v
       = Inr \<lparr>res = Some (map (\<lambda>t. \<lparr>frag_type = KClass, frag_value = t\<rparr>) (ts @ [v]))\<rparr>
   \<and> attr \<lparr>res = Some (map (\<lambda>t. \<lparr>frag_type = KAttribute, frag_value = t\<rparr>) ts)\<rparr> v
       = Inr \<lparr>res = Some (map (\<lambda>t. \<lparr>frag_type = KAttribute, frag_value = t\<rparr>) (ts @ [v]))\<rparr>
   \<and> pseudoClass \<lparr>res = Some (map (\<lambda>t. \<lparr>frag_type = KPseudoClass, frag_value = t\<rparr>) ts)\<rparr> v
       = Inr \<lparr>res = Some (map (\<lambda>t. \<lparr>frag_type = KPseudoClass, frag_value = t\<rparr>) (ts @ [v]))\<rparr>"
proof -
  have same: "append_and_check \<lparr>res = Some (map (\<lambda>t. \<lparr>frag_type = k, frag_value = t\<rparr>) ts)\<rparr> k v
       = Inr \<lparr>res = Some (map (\<lambda>t. \<lparr>frag_type = k, frag_value = t\<rparr>) (ts @ [v]))\<rparr>" for k
  proof -
    have "isSorted (map (\<lambda>t. \<lparr>frag_type = k, frag_value = t\<rparr>) (ts @ [v]))"
      by (rule all_same_kind_sorted [of _ k]) auto
    then show ?thesis by (simp add: append_and_check_eq res_or_empty_def)
  qed
  have ne: "append_and_check s t v \<noteq> Inl (Error TWICE_ERROR)" for t
    using errors_differ by (simp add: append_and_check_eq)
  have 1: "KElement \<in> set (map frag_type (res_or_empty s)) \<longrightarrow>
      element s v = Inl (Error TWICE_ERROR)"
    by (simp only: occurs_iff [symmetric]) (simp add: element_def)
  have 2: "KId \<in> set (map frag_type (res_or_empty s)) \<longrightarrow>
      id_sel s v = Inl (Error TWICE_ERROR)"
    by (simp only: occurs_iff [symmetric]) (simp add: id_sel_def)
  have 3: "KPseudoElement \<in> set (map frag_type (res_or_empty s)) \<longrightarrow>
      pseudoElement s v = Inl (Error TWICE_ERROR)"
    by (simp only: occurs_iff [symmetric]) (simp add: pseudoElement_def)
  have 4: "class_sel s v \<noteq> Inl (Error TWICE_ERROR)"
    using ne by (simp add: class_sel_def)
  have 5: "attr s v \<noteq> Inl (Error TWICE_ERROR)"
    using ne by (simp add: attr_def)
  have 6: "pseudoClass s v \<noteq> Inl (Error TWICE_ERROR)"
    using ne by (simp add: pseudoClass_def)
  have 7: "class_sel \<lparr>res = Some (map (\<lambda>t. \<lparr>frag_type = KClass, frag_value = t\<rparr>) ts)\<rparr> v
       = Inr \<lparr>res = Some (map (\<lambda>t. \<lparr>frag_type = KClass, frag_value = t\<rparr>) (ts @ [v]))\<rparr>"
    unfolding class_sel_def by (rule same)
  have 8: "attr \<lparr>res = Some (map (\<lambda>t. \<lparr>frag_type = KAttribute, frag_value = t\<rparr>) ts)\<rparr> v
       = Inr \<lparr>res = Some (map (\<lambda>t. \<lparr>frag_type = KAttribute, frag_value = t\<rparr>) (ts @ [v]))\<rparr>"
    unfolding attr_def by (rule same)
  have 9: "pseudoClass \<lparr>res = Some (map (\<lambda>t. \<lparr>frag_type = KPseudoClass, frag_value = t\<rparr>) ts)\<rparr> v
       = Inr \<lparr>res = Some (map (\<lambda>t. \<lparr>frag_type = KPseudoClass, frag_value = t\<rparr>) (ts @ [v]))\<rparr>"
    unfolding pseudoClass_def by (rule same)
  from 1 2 3 4 5 6 7 8 9 show ?thesis by blast
qed

text \<open>The selector \<^verbatim>\<open>element('a').id('b').pseudoElement('c')\<close> rejects all three.\<close>

theorem duplicate_check_only_for_singleton_kinds_witness:
  "KElement \<in> set (map frag_type (res_or_empty
       \<lparr>res = Some [\<lparr>frag_type = KElement, frag_value = ''a''\<rparr>,
                    \<lparr>frag_type = KId, frag_value = ''b''\<rparr>,
                    \<lparr>frag_type = KPseudoElement, frag_value = ''c''\<rparr>]\<rparr>))
   \<and> KId \<in> set (map frag_type (res_or_empty
       \<lparr>res = Some [\<lparr>frag_type = KElement, frag_value = ''a''\<rparr>,
                    \<lparr>frag_type = KId, frag_value = ''b''\<rparr>,
                    \<lparr>frag_type = KPseudoElement, frag_value = ''c''\<rparr>]\<rparr>))
   \<and> KPseudoElement \<in> set (map frag_type (res_or_empty
       \<lparr>res = Some [\<lparr>frag_type = KElement, frag_value = ''a''\<rparr>,
                    \<lparr>frag_type = KId, frag_value = ''b''\<rparr>,
                    \<lparr>frag_type = KPseudoElement, frag_value = ''c''\<rparr>]\<rparr>))
   \<and> element \<lparr>res = Some [\<lparr>frag_type = KElement, frag_value = ''a''\<rparr>,
                    \<lparr>frag_type = KId, frag_value = ''b''\<rparr>,
                    \<lparr>frag_type = KPseudoElement, frag_value = ''c''\<rparr>]\<rparr> ''x''
       = Inl (Error TWICE_ERROR)
   \<and> id_sel \<lparr>res = Some [\<lparr>frag_type = KElement, frag_value = ''a''\<rparr>,
                    \<lparr>frag_type = KId, frag_value = ''b''\<rparr>,
                    \<lparr>frag_type = KPseudoElement, frag_value = ''c''\<rparr>]\<rparr> ''x''
       = Inl (Error TWICE_ERROR)
   \<and> pseudoElement \<lparr>res = Some [\<lparr>frag_type = KElement, frag_value = ''a''\<rparr>,
                    \<lparr>frag_type = KId, frag_value = ''b''\<rparr>,
                    \<lparr>frag_type = KPseudoElement, frag_value = ''c''\<rparr>]\<rparr> ''x''
       = Inl (Error TWICE_ERROR)"
proof -
  let ?s = "\<lparr>res = Some [\<lparr>frag_type = KElement, frag_value = ''a''\<rparr>,
                    \<lparr>frag_type = KId, frag_value = ''b''\<rparr>,
                    \<lparr>frag_type = KPseudoElement, frag_value = ''c''\<rparr>]\<rparr>"
  have 1: "KElement \<in> set (map frag_type (res_or_empty ?s))"
    by (simp add: res_or_empty_def)
  have 2: "KId \<in> set (map frag_type (res_or_empty ?s))"
    by (simp add: res_or_empty_def)
  have 3: "KPseudoElement \<in> set (map frag_type (res_or_empty ?s))"
    by (simp add: res_or_empty_def)
  from duplicate_check_only_for_singleton_kinds [of ?s "''x''" "[]"] 1 2 3
  show ?thesis by blast
qed

text \<open>
  Claim C7. When a call of \<open>element\<close>, \<open>id\<close> or \<open>pseudoElement\<close> would both repeat
  its kind and break the rank order, it fails with the duplicate error and not with the
  order error: the duplicate test looks at the sequence before it is extended and
  before the order scan runs.
\<close>

theorem duplicate_error_takes_precedence:
  assumes "m \<in> {M_element, M_id, M_pseudoElement}"
    and "kind_of_method m \<in> set (map frag_type (res_or_empty s))"
    and "\<not> isSorted (res_or_empty s @ [\<lparr>frag_type = kind_of_method m, frag_value = v\<rparr>])"
  shows "invoke m s v = Inl (Error TWICE_ERROR) \<and> invoke m s v \<noteq> Inl (Error NOT_SO_ERROR)"
  using assms errors_differ by (simp add: invoke_eq occurs_iff)

text \<open>\<^verbatim>\<open>id('a').class('b').id('x')\<close>: a second id, and an id after a class.\<close>

theorem duplicate_error_takes_precedence_witness:
  "M_id \<in> {M_element, M_id, M_pseudoElement}
   \<and> kind_of_method M_id \<in> set (map frag_type (res_or_empty
        \<lparr>res = Some [\<lparr>frag_type = KId, frag_value = ''a''\<rparr>,
                     \<lparr>frag_type = KClass, frag_value = ''b''\<rparr>]\<rparr>))
   \<and> \<not> isSorted (res_or_empty
        \<lparr>res = Some [\<lparr>frag_type = KId, frag_value = ''a''\<rparr>,
                     \<lparr>frag_type = KClass, frag_value = ''b''\<rparr>]\<rparr>
          @ [\<lparr>frag_type = kind_of_method M_id, frag_value = ''x''\<rparr>])
   \<and> invoke M_id \<lparr>res = Some [\<lparr>frag_type = KId, frag_value = ''a''\<rparr>,
                               \<lparr>frag_type = KClass, frag_value = ''b''\<rparr>]\<rparr> ''x''
       = Inl (Error TWICE_ERROR)
   \<and> invoke M_id \<lparr>res = Some [\<lparr>frag_type = KId, frag_value = ''a''\<rparr>,
                               \<lparr>frag_type = KClass, frag_value = ''b''\<rparr>]\<rparr> ''x''
       \<noteq> Inl (Error NOT_SO_ERROR)"
proof -
  let ?s = "\<lparr>res = Some [\<lparr>frag_type = KId, frag_value = ''a''\<rparr>,
                     \<lparr>frag_type = KClass, frag_value = ''b''\<rparr>]\<rparr>"
  have 1: "M_id \<in> {M_element, M_id, M_pseudoElement}" by simp
  have 2: "kind_of_method M_id \<in> set (map frag_type (res_or_empty ?s))"
    by (simp add: res_or_empty_def)
  have 3: "\<not> isSorted (res_or_empty ?s @ [\<lparr>frag_type = kind_of_method M_id, frag_value = ''x''\<rparr>])"
    by (simp add: res_or_empty_def isSorted_sorted rank_simps)
  from duplicate_error_takes_precedence [OF 1 2 3] 1 2 3 show ?thesis by blast
qed

text \<open>
  Claim C4, as stated: an appending call fails with the order error if and only if the
  rank of the appended kind is lower than the rank of the fragment just before it. The
  scan runs over the whole extended sequence, combinators included, so on the selector
  \<^verbatim>\<open>combine(element('p'), '>', element('q'))\<close> the call \<^verbatim>\<open>class('c')\<close> fails with
  the order error although class does not rank below the preceding element.
\<close>

theorem out_of_order_iff_counterexample:
  "element cssSelectorBuilder ''p''
     = Inr \<lparr>res = Some [\<lparr>frag_type = KElement, frag_value = ''p''\<rparr>]\<rparr>
   \<and> element cssSelectorBuilder ''q''
     = Inr \<lparr>res = Some [\<lparr>frag_type = KElement, frag_value = ''q''\<rparr>]\<rparr>
   \<and> invoke M_class
        (combine cssSelectorBuilder \<lparr>res = Some [\<lparr>frag_type = KElement, frag_value = ''p''\<rparr>]\<rparr>
           ''>'' \<lparr>res = Some [\<lparr>frag_type = KElement, frag_value = ''q''\<rparr>]\<rparr>) ''c''
       = Inl (Error NOT_SO_ERROR)
   \<and> \<not> (rank (kind_of_method M_class)
          < rank (frag_type (last (res_or_empty
              (combine cssSelectorBuilder
                 \<lparr>res = Some [\<lparr>frag_type = KElement, frag_value = ''p''\<rparr>]\<rparr>
                 ''>'' \<lparr>res = Some [\<lparr>frag_type = KElement, frag_value = ''q''\<rparr>]\<rparr>)))))"
  by code_simp

text \<open>
  Claim C4, amended. When the duplicate error does not fire, an appending call fails with
  the order error if and only if the sequence of the selector already fails the order
  scan (which ranks a combinator \<open>-1\<close>, so a selector from \<open>combine\<close> with a
  non-combinator before a combinator fails it) or the sequence is not empty and the rank
  of the appended kind is lower than the rank of its last fragment. On a selector whose
  sequence passes the scan, as every selector built from the facade by appending calls
  alone does, this is the stated condition alone. On every failure, on any selector, the
  call yields the error and no selector, and the selector object it was called on still
  stands for the same selector.
\<close>

theorem out_of_order_exactly_when_scan_fails:
  "(invoke m s v \<noteq> Inl (Error TWICE_ERROR) \<longrightarrow>
      (invoke m s v = Inl (Error NOT_SO_ERROR)
         \<longleftrightarrow> \<not> isSorted (res_or_empty s)
             \<or> (res_or_empty s \<noteq> []
                  \<and> rank (kind_of_method m) < rank (frag_type (last (res_or_empty s))))))
   \<and> (isSorted (res_or_empty s) \<and> invoke m s v \<noteq> Inl (Error TWICE_ERROR) \<longrightarrow>
      (invoke m s v = Inl (Error NOT_SO_ERROR)
         \<longleftrightarrow> res_or_empty s \<noteq> []
             \<and> rank (kind_of_method m) < rank (frag_type (last (res_or_empty s)))))
   \<and> (invoke m s v = Inl e \<longrightarrow>
        (\<forall>s'. invoke m s v \<noteq> Inr s')
        \<and> (\<forall>h this. read_selector h this = Some s \<longrightarrow>
              (\<exists>h'. h_invoke m h this v = Some (h', Inl e)
                    \<and> read_selector h' this = Some s)))"
proof -
  have iff: "invoke m s v = Inl (Error NOT_SO_ERROR)
         \<longleftrightarrow> \<not> isSorted (res_or_empty s)
             \<or> (res_or_empty s \<noteq> []
                  \<and> rank (kind_of_method m) < rank (frag_type (last (res_or_empty s))))"
    if "invoke m s v \<noteq> Inl (Error TWICE_ERROR)"
    using that by (auto simp: invoke_out_of_order_iff isSorted_snoc)
  then have iff': "invoke m s v = Inl (Error NOT_SO_ERROR)
         \<longleftrightarrow> res_or_empty s \<noteq> []
             \<and> rank (kind_of_method m) < rank (frag_type (last (res_or_empty s)))"
    if "isSorted (res_or_empty s)" and "invoke m s v \<noteq> Inl (Error TWICE_ERROR)"
    using that by blast
  have none: "\<forall>s'. invoke m s v \<noteq> Inr s'" if "invoke m s v = Inl e"
    using that by simp
  have frame: "\<exists>h'. h_invoke m h this v = Some (h', Inl e) \<and> read_selector h' this = Some s"
    if fail: "invoke m s v = Inl e" and rd: "read_selector h this = Some s"
    for h this
  proof -
    from h_invoke_refines [OF rd, of m v] fail
    obtain new where "h_invoke m h this v = Some (h @ new, Inl e)"
      by auto
    with read_selector_append [OF rd, of new] show ?thesis by blast
  qed
  from iff iff' none frame show ?thesis by blast
qed

text \<open>
  \<^verbatim>\<open>class('a').id('x')\<close>: the sequence passes the scan and the id ranks below the class
  before it. \<^verbatim>\<open>combine(element('p'), '>', element('q')).class('c')\<close>: the sequence
  fails the scan, and the class does not rank below the element before it. Both calls
  fail with the order error and leave the selector object as it was.
\<close>

theorem out_of_order_exactly_when_scan_fails_witness:
  "isSorted (res_or_empty \<lparr>res = Some [\<lparr>frag_type = KClass, frag_value = ''a''\<rparr>]\<rparr>)
   \<and> invoke M_id \<lparr>res = Some [\<lparr>frag_type = KClass, frag_value = ''a''\<rparr>]\<rparr> ''x''
       \<noteq> Inl (Error TWICE_ERROR)
   \<and> invoke M_id \<lparr>res = Some [\<lparr>frag_type = KClass, frag_value = ''a''\<rparr>]\<rparr> ''x''
       = Inl (Error NOT_SO_ERROR)
   \<and> rank (kind_of_method M_id) < rank KClass
   \<and> (\<exists>h'. h_invoke M_id
              [SelectorCell None, FragmentCell \<lparr>frag_type = KClass, frag_value = ''a''\<rparr>,
               ArrayCell [1], SelectorCell (Some 2)] 3 ''x''
             = Some (h', Inl (Error NOT_SO_ERROR))
           \<and> read_selector h' 3
               = Some \<lparr>res = Some [\<lparr>frag_type = KClass, frag_value = ''a''\<rparr>]\<rparr>)
   \<and> \<not> isSorted (res_or_empty
         (combine cssSelectorBuilder \<lparr>res = Some [\<lparr>frag_type = KElement, frag_value = ''p''\<rparr>]\<rparr>
            ''>'' \<lparr>res = Some [\<lparr>frag_type = KElement, frag_value = ''q''\<rparr>]\<rparr>))
   \<and> invoke M_class
         (combine cssSelectorBuilder \<lparr>res = Some [\<lparr>frag_type = KElement, frag_value = ''p''\<rparr>]\<rparr>
            ''>'' \<lparr>res = Some [\<lparr>frag_type = KElement, frag_value = ''q''\<rparr>]\<rparr>) ''c''
       \<noteq> Inl (Error TWICE_ERROR)
   \<and> invoke M_class
         (combine cssSelectorBuilder \<lparr>res = Some [\<lparr>frag_type = KElement, frag_value = ''p''\<rparr>]\<rparr>
            ''>'' \<lparr>res = Some [\<lparr>frag_type = KElement, frag_value = ''q''\<rparr>]\<rparr>) ''c''
       = Inl (Error NOT_SO_ERROR)
   \<and> (\<exists>h'. h_invoke M_class
              [FragmentCell \<lparr>frag_type = KElement, frag_value = ''p''\<rparr>,
               FragmentCell \<lparr>frag_type = KCombinator, frag_value = ''>''\<rparr>,
               FragmentCell \<lparr>frag_type = KElement, frag_value = ''q''\<rparr>,
               ArrayCell [0, 1, 2], SelectorCell (Some 3)] 4 ''c''
             = Some (h', Inl (Error NOT_SO_ERROR))
           \<and> read_selector h' 4
               = Some (combine cssSelectorBuilder
                         \<lparr>res = Some [\<lparr>frag_type = KElement, frag_value = ''p''\<rparr>]\<rparr>
                         ''>'' \<lparr>res = Some [\<lparr>frag_type = KElement, frag_value = ''q''\<rparr>]\<rparr>))"
proof -
  let ?s = "\<lparr>res = Some [\<lparr>frag_type = KClass, frag_value = ''a''\<rparr>]\<rparr>"
  let ?h = "[SelectorCell None, FragmentCell \<lparr>frag_type = KClass, frag_value = ''a''\<rparr>,
               ArrayCell [1], SelectorCell (Some 2)]"
  let ?t = "combine cssSelectorBuilder \<lparr>res = Some [\<lparr>frag_type = KElement, frag_value = ''p''\<rparr>]\<rparr>
            ''>'' \<lparr>res = Some [\<lparr>frag_type = KElement, frag_value = ''q''\<rparr>]\<rparr>"
  let ?k = "[FragmentCell \<lparr>frag_type = KElement, frag_value = ''p''\<rparr>,
               FragmentCell \<lparr>frag_type = KCombinator, frag_value = ''>''\<rparr>,
               FragmentCell \<lparr>frag_type = KElement, frag_value = ''q''\<rparr>,
               ArrayCell [0, 1, 2], SelectorCell (Some 3)]"
  have 1: "isSorted (res_or_empty ?s)" by code_simp
  have 2: "invoke M_id ?s ''x'' \<noteq> Inl (Error TWICE_ERROR)" by code_simp
  have 3: "read_selector ?h 3 = Some ?s" by code_simp
  have 4: "res_or_empty ?s \<noteq> []" by code_simp
  have 5: "frag_type (last (res_or_empty ?s)) = KClass" by code_simp
  have 6: "rank (kind_of_method M_id) < rank KClass" by code_simp
  have 7: "\<not> isSorted (res_or_empty ?t)" by code_simp
  have 8: "invoke M_class ?t ''c'' \<noteq> Inl (Error TWICE_ERROR)" by code_simp
  have 9: "read_selector ?k 4 = Some ?t" by code_simp
  note a = out_of_order_exactly_when_scan_fails
             [of M_id ?s "''x''" "Error NOT_SO_ERROR"]
  note b = out_of_order_exactly_when_scan_fails
             [of M_class ?t "''c''" "Error NOT_SO_ERROR"]
  from a 1 2 4 5 6 have c: "invoke M_id ?s ''x'' = Inl (Error NOT_SO_ERROR)" by simp
  with a 3 have d: "\<exists>h'. h_invoke M_id ?h 3 ''x'' = Some (h', Inl (Error NOT_SO_ERROR))
                       \<and> read_selector h' 3 = Some ?s"
    by blast
  from b 7 8 have e: "invoke M_class ?t ''c'' = Inl (Error NOT_SO_ERROR)" by blast
  with b 9 have f: "\<exists>h'. h_invoke M_class ?k 4 ''c'' = Some (h', Inl (Error NOT_SO_ERROR))
                       \<and> read_selector h' 4 = Some ?t"
    by blast
  from 1 2 c 6 d 7 8 e f show ?thesis by blast
qed

text \<open>
  Claim C9. When the sequence of a selector, such as one that \<open>combine\<close> returns, holds
  a non-combinator fragment immediately followed by a combinator fragment, every later
  call of \<open>class\<close>, \<open>attr\<close> or \<open>pseudoClass\<close> on it fails with the order error: the
  scan after the append covers the combinator, whose index in the order list is \<open>-1\<close>,
  below that of every other kind.
\<close>

theorem append_after_combinator_fails:
  assumes "res_or_empty s = xs @ [x, y] @ ys"
    and "frag_type x \<noteq> KCombinator" and "frag_type y = KCombinator"
  shows "class_sel s v = Inl (Error NOT_SO_ERROR)
         \<and> attr s v = Inl (Error NOT_SO_ERROR)
         \<and> pseudoClass s v = Inl (Error NOT_SO_ERROR)
         \<and> indexOf order KCombinator = - 1
         \<and> (\<forall>t. t \<noteq> KCombinator \<longrightarrow> indexOf order KCombinator < indexOf order t)"
proof -
  have "\<not> isSorted (res_or_empty s @ [f])" for f
    using not_sorted_after_combinator [OF assms] .
  then have "append_and_check s t v = Inl (Error NOT_SO_ERROR)" for t
    by (simp add: append_and_check_eq)
  moreover have "indexOf order KCombinator = - 1"
    using rank_simps(7) by (simp add: rank_def)
  moreover have "\<forall>t. t \<noteq> KCombinator \<longrightarrow> indexOf order KCombinator < indexOf order t"
    using rank_combinator_least by (simp add: rank_def)
  ultimately show ?thesis
    by (simp add: class_sel_def attr_def pseudoClass_def)
qed

text \<open>\<^verbatim>\<open>combine(element('p'), '+', builder)\<close> is such a selector.\<close>

theorem append_after_combinator_fails_witness:
  "res_or_empty (combine cssSelectorBuilder
       \<lparr>res = Some [\<lparr>frag_type = KElement, frag_value = ''p''\<rparr>]\<rparr> ''+'' cssSelectorBuilder)
     = [] @ [\<lparr>frag_type = KElement, frag_value = ''p''\<rparr>,
             \<lparr>frag_type = KCombinator, frag_value = ''+''\<rparr>] @ []
   \<and> frag_type \<lparr>frag_type = KElement, frag_value = ''p''\<rparr> \<noteq> KCombinator
   \<and> frag_type \<lparr>frag_type = KCombinator, frag_value = ''+''\<rparr> = KCombinator
   \<and> class_sel (combine cssSelectorBuilder
       \<lparr>res = Some [\<lparr>frag_type = KElement, frag_value = ''p''\<rparr>]\<rparr> ''+'' cssSelectorBuilder) ''c''
       = Inl (Error NOT_SO_ERROR)
   \<and> attr (combine cssSelectorBuilder
       \<lparr>res = Some [\<lparr>frag_type = KElement, frag_value = ''p''\<rparr>]\<rparr> ''+'' cssSelectorBuilder) ''c''
       = Inl (Error NOT_SO_ERROR)
   \<and> pseudoClass (combine cssSelectorBuilder
       \<lparr>res = Some [\<lparr>frag_type = KElement, frag_value = ''p''\<rparr>]\<rparr> ''+'' cssSelectorBuilder) ''c''
       = Inl (Error NOT_SO_ERROR)"
proof -
  let ?p = "\<lparr>frag_type = KElement, frag_value = ''p''\<rparr>"
  let ?c = "\<lparr>frag_type = KCombinator, frag_value = ''+''\<rparr>"
  let ?s = "combine cssSelectorBuilder \<lparr>res = Some [?p]\<rparr> ''+'' cssSelectorBuilder"
  have 1: "res_or_empty ?s = [] @ [?p, ?c] @ []"
    by (simp add: combine_def cssSelectorBuilder_def res_or_empty_def)
  have 2: "frag_type ?p \<noteq> KCombinator" by simp
  have 3: "frag_type ?c = KCombinator" by simp
  from append_after_combinator_fails [OF 1 2 3, of "''c''"] 1 2 3 show ?thesis by blast
qed

section \<open>combine\<close>

text \<open>
  Claim C5. For all selectors \<open>a\<close> and \<open>b\<close> and every string \<open>c\<close>, \<open>combine\<close> returns
  the selector whose sequence is the fragments of \<open>a\<close>, one combinator fragment with the
  text \<open>c\<close>, and the fragments of \<open>b\<close>. It always returns a selector: it validates
  neither the order nor the duplicates of the merged sequence (two elements, out of
  scan order, in \<^verbatim>\<open>combine(element('p'), c, element('q'))\<close>), nor the string \<open>c\<close>,
  which appears as it is between two spaces in the rendering.
\<close>

theorem combine_splices_without_validation:
  "res (combine this a c b)
     = Some (res_or_empty a @ [\<lparr>frag_type = KCombinator, frag_value = c\<rparr>] @ res_or_empty b)
   \<and> stringify (combine this a c b) = stringify a @ '' '' @ c @ '' '' @ stringify b
   \<and> count_kind KElement
        (res_or_empty (combine this \<lparr>res = Some [\<lparr>frag_type = KElement, frag_value = ''p''\<rparr>]\<rparr> c
                         \<lparr>res = Some [\<lparr>frag_type = KElement, frag_value = ''q''\<rparr>]\<rparr>)) = 2
   \<and> \<not> isSorted
        (res_or_empty (combine this \<lparr>res = Some [\<lparr>frag_type = KElement, frag_value = ''p''\<rparr>]\<rparr> c
                         \<lparr>res = Some [\<lparr>frag_type = KElement, frag_value = ''q''\<rparr>]\<rparr>))"
proof -
  have 1: "res (combine this a c b)
     = Some (res_or_empty a @ [\<lparr>frag_type = KCombinator, frag_value = c\<rparr>] @ res_or_empty b)"
    by (simp add: combine_def)
  then have "res_or_empty (combine this a c b)
     = res_or_empty a @ [\<lparr>frag_type = KCombinator, frag_value = c\<rparr>] @ res_or_empty b"
    by (simp add: res_or_empty_def)
  then have 2: "stringify (combine this a c b) = stringify a @ '' '' @ c @ '' '' @ stringify b"
    by (simp add: stringify_eq format_fragment_def)
  let ?r = "res_or_empty (combine this \<lparr>res = Some [\<lparr>frag_type = KElement, frag_value = ''p''\<rparr>]\<rparr> c
                         \<lparr>res = Some [\<lparr>frag_type = KElement, frag_value = ''q''\<rparr>]\<rparr>)"
  have r: "?r = [\<lparr>frag_type = KElement, frag_value = ''p''\<rparr>,
                 \<lparr>frag_type = KCombinator, frag_value = c\<rparr>,
                 \<lparr>frag_type = KElement, frag_value = ''q''\<rparr>]"
    by (simp add: combine_def res_or_empty_def)
  have 3: "count_kind KElement ?r = 2"
    unfolding r by (simp add: count_kind_def)
  have 4: "\<not> isSorted ?r"
    unfolding r by (simp add: isSorted_sorted rank_simps)
  from 1 2 3 4 show ?thesis by blast
qed

text \<open>
  Claim C10. The facade carries no fragment sequence; \<open>combine\<close> accepts it as either
  operand and treats it as the empty selector. For every string \<open>c\<close>, combining the
  facade with itself gives the selector whose only fragment is the combinator, rendered
  as \<open>c\<close> between two spaces: \<^verbatim>\<open>' + '\<close> when \<open>c\<close> is \<^verbatim>\<open>'+'\<close>.
\<close>

theorem combine_of_bare_builder:
  "res cssSelectorBuilder = None
   \<and> combine cssSelectorBuilder cssSelectorBuilder c cssSelectorBuilder
       = \<lparr>res = Some [\<lparr>frag_type = KCombinator, frag_value = c\<rparr>]\<rparr>
   \<and> stringify (combine cssSelectorBuilder cssSelectorBuilder c cssSelectorBuilder)
       = '' '' @ c @ '' ''
   \<and> stringify (combine cssSelectorBuilder cssSelectorBuilder ''+'' cssSelectorBuilder) = '' + ''"
  by (simp add: combine_def cssSelectorBuilder_def res_or_empty_def stringify_def
        format_fragment_def)

section \<open>No operation changes an existing selector\<close>

text \<open>
  Claim C6. No operation mutates its input. Whatever an appending call or \<open>combine\<close>
  returns, the store it leaves begins with the store it found, so every selector object
  that existed before, the receiver and the operands among them, still stands for the
  same sequence and renders as before; and a call on selector objects always returns.
  In particular, with \<^verbatim>\<open>s = class('a')\<close>, both \<^verbatim>\<open>s.class('b')\<close> and \<^verbatim>\<open>s.attr('c')\<close>
  succeed, and \<open>s\<close> renders as \<^verbatim>\<open>.a\<close> before and after them.
\<close>

theorem operations_leave_existing_selectors_unchanged:
  assumes "read_selector h x = Some sx"
  shows "(h_invoke m h this v = Some (h', r) \<longrightarrow>
            take (length h) h' = h \<and> read_selector h' x = Some sx
            \<and> h_stringify h' x = h_stringify h x)
         \<and> (h_combine h this a c b = Some (h'', r') \<longrightarrow>
            take (length h) h'' = h \<and> read_selector h'' x = Some sx
            \<and> h_stringify h'' x = h_stringify h x)
         \<and> (\<exists>k q. h_invoke m h x v = Some (k, q))
         \<and> (\<exists>k q. h_combine h x x c x = Some (k, q))
         \<and> (\<exists>h1 s h2 t1 h3 t2.
               h_invoke M_class [SelectorCell None] 0 ''a'' = Some (h1, Inr s)
               \<and> h_invoke M_class h1 s ''b'' = Some (h2, Inr t1)
               \<and> h_invoke M_attr h2 s ''c'' = Some (h3, Inr t2)
               \<and> h_stringify h1 s = Some ''.a''
               \<and> h_stringify h3 s = Some ''.a''
               \<and> h_stringify h3 t1 = Some ''.a.b''
               \<and> h_stringify h3 t2 = Some ''.a[c]'')"
proof -
  have ext: "take (length h) k = h \<and> read_selector k x = Some sx
            \<and> h_stringify k x = h_stringify h x" if "k = h @ new" for k new
    using that read_selector_append [OF assms, of new] assms by (simp add: h_stringify_def)
  have 1: "h_invoke m h this v = Some (h', r) \<longrightarrow>
            take (length h) h' = h \<and> read_selector h' x = Some sx
            \<and> h_stringify h' x = h_stringify h x"
    using h_invoke_frame ext by blast
  have 2: "h_combine h this a c b = Some (h'', r') \<longrightarrow>
            take (length h) h'' = h \<and> read_selector h'' x = Some sx
            \<and> h_stringify h'' x = h_stringify h x"
    using h_combine_frame ext by blast
  have 3: "\<exists>k q. h_invoke m h x v = Some (k, q)"
    using h_invoke_refines [OF assms, of m v] by (cases "invoke m sx v") auto
  have 5: "\<exists>k q. h_combine h x x c x = Some (k, q)"
    using h_combine_refines [OF assms assms assms, of c] by blast
  let ?h1 = "[SelectorCell None,
              FragmentCell \<lparr>frag_type = KClass, frag_value = ''a''\<rparr>, ArrayCell [1],
              SelectorCell (Some 2)]"
  let ?h2 = "?h1 @ [FragmentCell \<lparr>frag_type = KClass, frag_value = ''b''\<rparr>, ArrayCell [1, 4],
              SelectorCell (Some 5)]"
  let ?h3 = "?h2 @ [FragmentCell \<lparr>frag_type = KAttribute, frag_value = ''c''\<rparr>, ArrayCell [1, 7],
              SelectorCell (Some 8)]"
  have a: "h_invoke M_class [SelectorCell None] 0 ''a'' = Some (?h1, Inr 3)" by code_simp
  have b: "h_invoke M_class ?h1 3 ''b'' = Some (?h2, Inr 6)" by code_simp
  have c: "h_invoke M_attr ?h2 3 ''c'' = Some (?h3, Inr 9)" by code_simp
  have d: "h_stringify ?h1 3 = Some ''.a''" by code_simp
  have e: "h_stringify ?h3 3 = Some ''.a''" by code_simp
  have f: "h_stringify ?h3 6 = Some ''.a.b''" by code_simp
  have g: "h_stringify ?h3 9 = Some ''.a[c]''" by code_simp
  from a b c d e f g have 4: "\<exists>h1 s h2 t1 h3 t2.
               h_invoke M_class [SelectorCell None] 0 ''a'' = Some (h1, Inr s)
               \<and> h_invoke M_class h1 s ''b'' = Some (h2, Inr t1)
               \<and> h_invoke M_attr h2 s ''c'' = Some (h3, Inr t2)
               \<and> h_stringify h1 s = Some ''.a''
               \<and> h_stringify h3 s = Some ''.a''
               \<and> h_stringify h3 t1 = Some ''.a.b''
               \<and> h_stringify h3 t2 = Some ''.a[c]''"
    by blast
  from 1 2 3 4 5 show ?thesis by blast
qed

text \<open>
  With \<^verbatim>\<open>s = class('a')\<close> at address 3: after \<^verbatim>\<open>s.class('b')\<close>, and after
  \<^verbatim>\<open>combine(s, '+', s)\<close>, the object \<open>s\<close> reads and renders as before.
\<close>

theorem operations_leave_existing_selectors_unchanged_witness:
  "read_selector
     [SelectorCell None, FragmentCell \<lparr>frag_type = KClass, frag_value = ''a''\<rparr>,
      ArrayCell [1], SelectorCell (Some 2)] 3
     = Some \<lparr>res = Some [\<lparr>frag_type = KClass, frag_value = ''a''\<rparr>]\<rparr>
   \<and> h_invoke M_class
       [SelectorCell None, FragmentCell \<lparr>frag_type = KClass, frag_value = ''a''\<rparr>,
        ArrayCell [1], SelectorCell (Some 2)] 3 ''b''
     = Some ([SelectorCell None, FragmentCell \<lparr>frag_type = KClass, frag_value = ''a''\<rparr>,
              ArrayCell [1], SelectorCell (Some 2),
              FragmentCell \<lparr>frag_type = KClass, frag_value = ''b''\<rparr>,
              ArrayCell [1, 4], SelectorCell (Some 5)], Inr 6)
   \<and> read_selector
       [SelectorCell None, FragmentCell \<lparr>frag_type = KClass, frag_value = ''a''\<rparr>,
        ArrayCell [1], SelectorCell (Some 2),
        FragmentCell \<lparr>frag_type = KClass, frag_value = ''b''\<rparr>,
        ArrayCell [1, 4], SelectorCell (Some 5)] 3
     = Some \<lparr>res = Some [\<lparr>frag_type = KClass, frag_value = ''a''\<rparr>]\<rparr>
   \<and> h_combine
       [SelectorCell None, FragmentCell \<lparr>frag_type = KClass, frag_value = ''a''\<rparr>,
        ArrayCell [1], SelectorCell (Some 2)] 3 3 ''+'' 3
     = Some ([SelectorCell None, FragmentCell \<lparr>frag_type = KClass, frag_value = ''a''\<rparr>,
              ArrayCell [1], SelectorCell (Some 2),
              FragmentCell \<lparr>frag_type = KCombinator, frag_value = ''+''\<rparr>,
              ArrayCell [1, 4, 1], SelectorCell (Some 5)], 6)
   \<and> read_selector
       [SelectorCell None, FragmentCell \<lparr>frag_type = KClass, frag_value = ''a''\<rparr>,
        ArrayCell [1], SelectorCell (Some 2),
        FragmentCell \<lparr>frag_type = KCombinator, frag_value = ''+''\<rparr>,
        ArrayCell [1, 4, 1], SelectorCell (Some 5)] 3
     = Some \<lparr>res = Some [\<lparr>frag_type = KClass, frag_value = ''a''\<rparr>]\<rparr>"
proof -
  let ?s = "\<lparr>res = Some [\<lparr>frag_type = KClass, frag_value = ''a''\<rparr>]\<rparr>"
  let ?h = "[SelectorCell None, FragmentCell \<lparr>frag_type = KClass, frag_value = ''a''\<rparr>,
             ArrayCell [1], SelectorCell (Some 2)]"
  let ?h' = "[SelectorCell None, FragmentCell \<lparr>frag_type = KClass, frag_value = ''a''\<rparr>,
              ArrayCell [1], SelectorCell (Some 2),
              FragmentCell \<lparr>frag_type = KClass, frag_value = ''b''\<rparr>,
              ArrayCell [1, 4], SelectorCell (Some 5)]"
  let ?h'' = "[SelectorCell None, FragmentCell \<lparr>frag_type = KClass, frag_value = ''a''\<rparr>,
              ArrayCell [1], SelectorCell (Some 2),
              FragmentCell \<lparr>frag_type = KCombinator, frag_value = ''+''\<rparr>,
              ArrayCell [1, 4, 1], SelectorCell (Some 5)]"
  have 1: "read_selector ?h 3 = Some ?s" by code_simp
  have 2: "h_invoke M_class ?h 3 ''b'' = Some (?h', Inr 6)" by code_simp
  have 3: "h_combine ?h 3 3 ''+'' 3 = Some (?h'', 6)" by code_simp
  from operations_leave_existing_selectors_unchanged
         [OF 1, of M_class 3 "''b''" ?h' "Inr 6" 3 "''+''" 3 ?h'' 6] 1 2 3
  show ?thesis by blast
qed

end
